theory Spec2Isabelle
  imports Main "HOL-Library.Multiset"
begin

section \<open>Data model of package healthz\<close>

text \<open>
  \<^verbatim>\<open>naming.Update{Op, Addr}\<close> of google.golang.org/grpc/naming, with its two operations.
  The field \<^verbatim>\<open>Addr\<close> of an update is called \<open>UAddr\<close> here, since \<open>Addr\<close> is the
  field of \<^verbatim>\<open>Endpoint\<close>.
\<close>

datatype Operation = Add | Delete

record Update =
  Op :: Operation
  UAddr :: string

text \<open>
  \<^verbatim>\<open>type Endpoint struct { Addr string; CheckURL string; status int }\<close>.
  The resolver holds \<^verbatim>\<open>[]*Endpoint\<close>; every pointer is a fresh allocation of
  \<^verbatim>\<open>SetEndpoints\<close>, so a pointer is modelled as the index of the endpoint in
  \<open>endp\<close>, and writing through the pointer as replacing the list element.
\<close>

record Endpoint =
  Addr :: string
  CheckURL :: string
  status :: int

text \<open>The status codes of net/http that the source names.\<close>

definition StatusOK :: int where
  "StatusOK = 200"

definition StatusNotImplemented :: int where
  "StatusNotImplemented = 501"

definition StatusBadGateway :: int where
  "StatusBadGateway = 502"

definition StatusServiceUnavailable :: int where
  "StatusServiceUnavailable = 503"

text \<open>
  What \<^verbatim>\<open>ctxhttp.Get(ctx, http.DefaultClient, ep.CheckURL)\<close> returned in the goroutine
  of one endpoint: a response with its status code, or a non-nil error. The error is
  the transport's, or the context's when the deadline \<^verbatim>\<open>checkTimeout\<close> of the round
  expired before the response came.
\<close>

datatype get_error = TransportError | DeadlineExceeded

datatype probe = Response int | Failed get_error

datatype error = ErrNoEndpoints | ErrGet get_error

datatype Logger = nopLogger | customLogger

text \<open>
  A buffered channel \<^verbatim>\<open>chan []*naming.Update\<close>: the queued batches, the capacity given
  to \<^verbatim>\<open>make\<close>, and whether \<^verbatim>\<open>close\<close> was called on it.
\<close>

record chan =
  buf :: "Update list list"
  cap :: nat
  closed :: bool

text \<open>
  \<^verbatim>\<open>type Resolver struct\<close>. The channel \<^verbatim>\<open>quitc\<close> of type \<^verbatim>\<open>chan struct{}\<close> is never sent
  on, only closed, so it is the flag "closed". Durations are nanoseconds. The mutex is
  held for the whole of \<^verbatim>\<open>update\<close>, which the model runs as one step.
\<close>

record Resolver =
  endp :: "Endpoint list"
  logger :: Logger
  checkTimeout :: int
  updateInterval :: int
  quitc :: bool
  updatesc :: chan

text \<open>
  The environment of one probing round: the result of the probe of each endpoint (by
  index), and the order in which \<^verbatim>\<open>range oldStatuses\<close> visits the entries of the map,
  which Go leaves unspecified.
\<close>

record round =
  outcome :: "nat \<Rightarrow> probe"
  order :: "nat list"

text \<open>Go's map range visits every entry exactly once.\<close>

definition range_order :: "Endpoint list \<Rightarrow> nat list \<Rightarrow> bool" where
  "range_order eps ks \<longleftrightarrow> mset ks = mset [0..<length eps]"

section \<open>Resolver.update\<close>

text \<open>
  \<^verbatim>\<open>oldStatuses := make(map[*Endpoint]int); for _, ep := range r.endp { oldStatuses[ep] = ep.status }\<close>
\<close>

definition snapshot :: "Endpoint list \<Rightarrow> (nat \<rightharpoonup> int)" where
  "snapshot eps = map_of (zip [0..<length eps] (map status eps))"

text \<open>
  The body of the goroutine started for one endpoint: the endpoint after it, and the
  error it returns to the errgroup (always nil).
\<close>

definition check :: "probe \<Rightarrow> Endpoint \<Rightarrow> Endpoint \<times> error option" where
  "check p ep =
     (case p of
        Failed e \<Rightarrow> (ep\<lparr>status := StatusServiceUnavailable\<rparr>, None)
      | Response code \<Rightarrow> (ep\<lparr>status := code\<rparr>, None))"

text \<open>
  \<^verbatim>\<open>g.Wait()\<close> returns the first non-nil error a goroutine returned, nil when there is
  none. "First" is first in time in Go; the model takes the first by index.
\<close>

definition Wait :: "error option list \<Rightarrow> error option" where
  "Wait errs = (case filter (\<lambda>e. e \<noteq> None) errs of [] \<Rightarrow> None | e # _ \<Rightarrow> e)"

text \<open>
  The loop \<^verbatim>\<open>for ep, oldStatus := range oldStatuses\<close>, visiting the keys in the order
  \<open>ks\<close>; \<open>eps\<close> are the endpoints after the probes, \<open>updates\<close> the slice appended to.
\<close>

fun diff :: "(nat \<rightharpoonup> int) \<Rightarrow> Endpoint list \<Rightarrow> nat list \<Rightarrow> Update list \<Rightarrow> Update list" where
  "diff oldStatuses eps [] updates = updates"
| "diff oldStatuses eps (k # ks) updates =
     (case oldStatuses k of
        None \<Rightarrow> diff oldStatuses eps ks updates
      | Some oldStatus \<Rightarrow>
          (let ep = eps ! k;
               oldOK = (oldStatus \<ge> 200 \<and> oldStatus < 300);
               newOK = (status ep \<ge> 200 \<and> status ep < 300)
           in if oldOK \<and> \<not> newOK then
                diff oldStatuses eps ks (updates @ [\<lparr>Op = Delete, UAddr = Addr ep\<rparr>])
              else if \<not> oldOK \<and> newOK then
                diff oldStatuses eps ks (updates @ [\<lparr>Op = Add, UAddr = Addr ep\<rparr>])
              else diff oldStatuses eps ks updates))"

text \<open>
  \<^verbatim>\<open>func (r *Resolver) update() ([]*naming.Update, error)\<close>: the resolver after the
  round, and the error or the batch it returns.
\<close>

definition update :: "round \<Rightarrow> Resolver \<Rightarrow> Resolver \<times> (error + Update list)" where
  "update rnd r =
     (let oldStatuses = snapshot (endp r);
          results = map (\<lambda>i. check (outcome rnd i) (endp r ! i)) [0..<length (endp r)];
          r' = r\<lparr>endp := map fst results\<rparr>
      in case Wait (map snd results) of
           Some err \<Rightarrow> (r', Inl err)
         | None \<Rightarrow> (r', Inr (diff oldStatuses (endp r') (order rnd) [])))"

section \<open>Channels\<close>

text \<open>
  What a statement that may block or panic does: it completes with a value, it blocks
  (the goroutine waits in this state), or it panics.
\<close>

datatype 'a outcome = Return 'a | Block | Panic

text \<open>\<^verbatim>\<open>make(chan []*naming.Update, n)\<close>\<close>

definition make_chan :: "nat \<Rightarrow> chan" where
  "make_chan n = \<lparr>buf = [], cap = n, closed = False\<rparr>"

text \<open>
  \<^verbatim>\<open>c <- v\<close>: a send on a closed channel panics; otherwise it completes when the buffer
  has room and blocks when it has none (with capacity 0, until a receiver arrives).
\<close>

definition send :: "chan \<Rightarrow> Update list \<Rightarrow> chan outcome" where
  "send c v =
     (if closed c then Panic
      else if length (buf c) < cap c then Return (c\<lparr>buf := buf c @ [v]\<rparr>)
      else Block)"

text \<open>
  \<^verbatim>\<open><-c\<close>: the oldest queued batch; on an empty channel the zero value (the nil slice)
  at once when the channel is closed, and a block when it is open.
\<close>

definition recv :: "chan \<Rightarrow> (Update list \<times> chan) outcome" where
  "recv c =
     (case buf c of
        v # vs \<Rightarrow> Return (v, c\<lparr>buf := vs\<rparr>)
      | [] \<Rightarrow> if closed c then Return ([], c) else Block)"

text \<open>\<^verbatim>\<open>close(c)\<close>: closing a closed channel panics.\<close>

definition close_chan :: "chan \<Rightarrow> chan outcome" where
  "close_chan c = (if closed c then Panic else Return (c\<lparr>closed := True\<rparr>))"

section \<open>Options and NewResolver\<close>

text \<open>
  The options the package provides, each a \<^verbatim>\<open>func(*Resolver) error\<close> that returns nil.
  \<^verbatim>\<open>SetEndpoints\<close> copies \<^verbatim>\<open>Addr\<close> and \<^verbatim>\<open>CheckURL\<close> of every endpoint given and sets its
  status to \<^verbatim>\<open>http.StatusServiceUnavailable\<close>.
\<close>

datatype ResolverOption =
    SetEndpoints "Endpoint list"
  | SetLogger Logger
  | SetCheckTimeout int
  | SetUpdateInterval int

fun apply_option :: "ResolverOption \<Rightarrow> Resolver \<Rightarrow> error + Resolver" where
  "apply_option (SetEndpoints endpoints) r =
     Inr (r\<lparr>endp := map (\<lambda>ep. \<lparr>Addr = Addr ep, CheckURL = CheckURL ep,
                                status = StatusServiceUnavailable\<rparr>) endpoints\<rparr>)"
| "apply_option (SetLogger l) r = Inr (r\<lparr>logger := l\<rparr>)"
| "apply_option (SetCheckTimeout timeout) r = Inr (r\<lparr>checkTimeout := timeout\<rparr>)"
| "apply_option (SetUpdateInterval interval) r = Inr (r\<lparr>updateInterval := interval\<rparr>)"

text \<open>\<^verbatim>\<open>for _, option := range options { if err := option(r); err != nil { return nil, err } }\<close>\<close>

fun apply_options :: "ResolverOption list \<Rightarrow> Resolver \<Rightarrow> error + Resolver" where
  "apply_options [] r = Inr r"
| "apply_options (opt # opts) r =
     (case apply_option opt r of
        Inl err \<Rightarrow> Inl err
      | Inr r' \<Rightarrow> apply_options opts r')"

definition defaultCheckTimeout :: int where
  "defaultCheckTimeout = 5 * 1000000000"

definition defaultUpdateInterval :: int where
  "defaultUpdateInterval = 30 * 1000000000"

text \<open>
  \<^verbatim>\<open>func NewResolver(options ...ResolverOption) (*Resolver, error)\<close>, with the
  environment of the round it runs. \<^verbatim>\<open>updatesc\<close> is nil in the struct literal and made
  before its first use; the literal holds a channel of capacity 0 in its place. The
  updater goroutine it starts is \<open>updater_iter\<close> below.
\<close>

definition NewResolver :: "ResolverOption list \<Rightarrow> round \<Rightarrow> (error + Resolver) outcome" where
  "NewResolver options rnd =
     (case apply_options options
             \<lparr>endp = [], logger = nopLogger, checkTimeout = defaultCheckTimeout,
              updateInterval = defaultUpdateInterval, quitc = False,
              updatesc = make_chan 0\<rparr> of
        Inl err \<Rightarrow> Return (Inl err)
      | Inr r0 \<Rightarrow>
          if length (endp r0) = 0 then Return (Inl ErrNoEndpoints)
          else
            (let r1 = r0\<lparr>updatesc := make_chan (length (endp r0))\<rparr>
             in case update rnd r1 of
                  (r2, Inr updates) \<Rightarrow>
                    if length updates > 0 then
                      (case send (updatesc r2) updates of
                         Return c \<Rightarrow> Return (Inr (r2\<lparr>updatesc := c\<rparr>))
                       | Block \<Rightarrow> Block
                       | Panic \<Rightarrow> Panic)
                    else Return (Inr r2)
                | (r2, Inl err) \<Rightarrow> Return (Inr r2)))"

section \<open>Next, Close and the updater loop\<close>

text \<open>\<^verbatim>\<open>func (r *Resolver) Next() ([]*naming.Update, error) { return <-r.updatesc, nil }\<close>\<close>

definition Next :: "Resolver \<Rightarrow> ((Update list \<times> error option) \<times> Resolver) outcome" where
  "Next r =
     (case recv (updatesc r) of
        Return (updates, c) \<Rightarrow> Return ((updates, None), r\<lparr>updatesc := c\<rparr>)
      | Block \<Rightarrow> Block
      | Panic \<Rightarrow> Panic)"

text \<open>
  \<^verbatim>\<open>select { case <-r.quitc: default: close(r.quitc); close(r.updatesc) }\<close>: the first
  case is ready exactly when \<^verbatim>\<open>quitc\<close> is closed.
\<close>

definition Close :: "Resolver \<Rightarrow> Resolver outcome" where
  "Close r =
     (if quitc r then Return r
      else
        (case close_chan (updatesc r) of
           Return c \<Rightarrow> Return (r\<lparr>quitc := True, updatesc := c\<rparr>)
         | Block \<Rightarrow> Block
         | Panic \<Rightarrow> Panic))"

text \<open>\<open>n\<close> calls of \<^verbatim>\<open>Close\<close> in sequence.\<close>

primrec Close_times :: "nat \<Rightarrow> Resolver \<Rightarrow> Resolver outcome" where
  "Close_times 0 r = Return r"
| "Close_times (Suc n) r =
     (case Close r of
        Return r' \<Rightarrow> Close_times n r'
      | Block \<Rightarrow> Block
      | Panic \<Rightarrow> Panic)"

text \<open>
  One iteration of the \<^verbatim>\<open>for\<close> loop of \<^verbatim>\<open>updater\<close>, and how the goroutine goes on after
  it: into the next iteration, out of the function, waiting in the \<^verbatim>\<open>select\<close>, waiting
  in the send, or panicking.

  \<open>tick\<close> is \<open>Some rnd\<close> when a tick is pending on \<^verbatim>\<open>t.C\<close> (\<open>rnd\<close> being the environment
  of the round it starts); \<open>pick_quit\<close> is the choice of the runtime when both cases of
  the \<^verbatim>\<open>select\<close> are ready. In \<^verbatim>\<open>case <-r.quitc: break\<close> the \<^verbatim>\<open>break\<close> leaves the
  \<^verbatim>\<open>select\<close>, and the statement after the \<^verbatim>\<open>select\<close> is the end of the loop body. The
  logger only prints.
\<close>

datatype ctl = Continue | Returned | Waiting | SendBlocked | Panicked

definition updater_iter :: "round option \<Rightarrow> bool \<Rightarrow> Resolver \<Rightarrow> Resolver \<times> ctl" where
  "updater_iter tick pick_quit r =
     (case tick of
        None \<Rightarrow> if quitc r then (r, Continue) else (r, Waiting)
      | Some rnd \<Rightarrow>
          if quitc r \<and> pick_quit then (r, Continue)
          else
            (case update rnd r of
               (r', Inl err) \<Rightarrow> (r', Continue)
             | (r', Inr updates) \<Rightarrow>
                 (case send (updatesc r') updates of
                    Return c \<Rightarrow> (r'\<lparr>updatesc := c\<rparr>, Continue)
                  | Block \<Rightarrow> (r', SendBlocked)
                  | Panic \<Rightarrow> (r', Panicked))))"

section \<open>The older resolver of package lb\<close>

text \<open>
  \<^verbatim>\<open>lb.HealthzResolver\<close> (lb/healthz.go) is the same resolver without options and
  logger. Its \<^verbatim>\<open>HealthzEndpoint\<close> has the fields of \<^verbatim>\<open>Endpoint\<close>; its \<^verbatim>\<open>Next\<close> and \<^verbatim>\<open>Close\<close>
  are those above word for word, its \<^verbatim>\<open>updater\<close> is the one above printing with
  \<^verbatim>\<open>log.Printf\<close>, and the loop over the old statuses is \<open>diff\<close>. Its goroutine returns
  the error of a failed probe, its endpoints start at \<^verbatim>\<open>http.StatusNotImplemented\<close>, and
  its constructor sends the first batch whatever its length and returns the error of
  the first round.
\<close>

record HealthzResolver =
  hz_endp :: "Endpoint list"
  hz_checkTimeout :: int
  hz_updateInterval :: int
  hz_quitc :: bool
  hz_updatesc :: chan

definition hz_check :: "probe \<Rightarrow> Endpoint \<Rightarrow> Endpoint \<times> error option" where
  "hz_check p ep =
     (case p of
        Failed e \<Rightarrow> (ep, Some (ErrGet e))
      | Response code \<Rightarrow> (ep\<lparr>status := code\<rparr>, None))"

definition hz_update :: "round \<Rightarrow> HealthzResolver \<Rightarrow> HealthzResolver \<times> (error + Update list)" where
  "hz_update rnd r =
     (let oldStatuses = snapshot (hz_endp r);
          results = map (\<lambda>i. hz_check (outcome rnd i) (hz_endp r ! i)) [0..<length (hz_endp r)];
          r' = r\<lparr>hz_endp := map fst results\<rparr>
      in case Wait (map snd results) of
           Some err \<Rightarrow> (r', Inl err)
         | None \<Rightarrow> (r', Inr (diff oldStatuses (hz_endp r') (order rnd) [])))"

text \<open>\<^verbatim>\<open>func NewHealthzResolver(endpoints ...HealthzEndpoint) (*HealthzResolver, error)\<close>\<close>

definition NewHealthzResolver ::
    "Endpoint list \<Rightarrow> round \<Rightarrow> (error + HealthzResolver) outcome" where
  "NewHealthzResolver endpoints rnd =
     (let endp = map (\<lambda>ep. \<lparr>Addr = Addr ep, CheckURL = CheckURL ep,
                            status = StatusNotImplemented\<rparr>) endpoints;
          r = \<lparr>hz_endp = endp, hz_checkTimeout = defaultCheckTimeout,
               hz_updateInterval = defaultUpdateInterval, hz_quitc = False,
               hz_updatesc = make_chan (length endp)\<rparr>
      in case hz_update rnd r of
           (r', Inl err) \<Rightarrow> Return (Inl err)
         | (r', Inr updates) \<Rightarrow>
             (case send (hz_updatesc r') updates of
                Return c \<Rightarrow> Return (Inr (r'\<lparr>hz_updatesc := c\<rparr>))
              | Block \<Rightarrow> Block
              | Panic \<Rightarrow> Panic))"

section \<open>The specification's notions\<close>

text \<open>
  The state diff engine as the specification words it. A status is classified OK when
  it is a code in 200..299 and not-OK otherwise. An endpoint gives one Delete when it
  goes from OK to not-OK, one Add when it goes from not-OK to OK, and nothing when the
  classification is unchanged.
\<close>

datatype classification = OK | NotOK

definition classify :: "int \<Rightarrow> classification" where
  "classify s = (if 200 \<le> s \<and> s \<le> 299 then OK else NotOK)"

fun spec_events :: "classification \<Rightarrow> classification \<Rightarrow> string \<Rightarrow> Update list" where
  "spec_events OK NotOK a = [\<lparr>Op = Delete, UAddr = a\<rparr>]"
| "spec_events NotOK OK a = [\<lparr>Op = Add, UAddr = a\<rparr>]"
| "spec_events OK OK a = []"
| "spec_events NotOK NotOK a = []"

definition spec_diff :: "Endpoint \<Rightarrow> Endpoint \<Rightarrow> Update list" where
  "spec_diff old new = spec_events (classify (status old)) (classify (status new)) (Addr new)"

text \<open>
  A probe is healthy when a response was received and its code is in 200..299.
\<close>

definition healthy :: "probe \<Rightarrow> bool" where
  "healthy p = (case p of Response code \<Rightarrow> 200 \<le> code \<and> code \<le> 299 | Failed e \<Rightarrow> False)"

text \<open>
  The configured endpoint list of a call of \<^verbatim>\<open>NewResolver\<close>: the endpoints given to the
  last \<^verbatim>\<open>SetEndpoints\<close> among its options, and no endpoint when there is none.
\<close>

fun endpoints_of :: "ResolverOption \<Rightarrow> Endpoint list option" where
  "endpoints_of (SetEndpoints eps) = Some eps"
| "endpoints_of (SetLogger l) = None"
| "endpoints_of (SetCheckTimeout t) = None"
| "endpoints_of (SetUpdateInterval t) = None"

definition configured_endpoints :: "ResolverOption list \<Rightarrow> Endpoint list" where
  "configured_endpoints options =
     (case List.map_filter endpoints_of options of [] \<Rightarrow> [] | e # es \<Rightarrow> last (e # es))"

text \<open>The Add event of an endpoint.\<close>

definition add_event :: "Endpoint \<Rightarrow> Update" where
  "add_event ep = \<lparr>Op = Add, UAddr = Addr ep\<rparr>"

text \<open>The endpoints whose probe is healthy in a round, in the order of the list.\<close>

definition healthy_endpoints :: "round \<Rightarrow> Endpoint list \<Rightarrow> Endpoint list" where
  "healthy_endpoints rnd eps =
     map (\<lambda>i. eps ! i) (filter (\<lambda>i. healthy (outcome rnd i)) [0..<length eps])"

subsection \<open>Auxiliary notions of the model\<close>

text \<open>An endpoint as \<^verbatim>\<open>SetEndpoints\<close> stores it.\<close>

definition stored :: "Endpoint \<Rightarrow> Endpoint" where
  "stored ep = \<lparr>Addr = Addr ep, CheckURL = CheckURL ep, status = StatusServiceUnavailable\<rparr>"

text \<open>What one visited entry appends.\<close>

definition entry_events :: "(nat \<rightharpoonup> int) \<Rightarrow> Endpoint list \<Rightarrow> nat \<Rightarrow> Update list" where
  "entry_events oldStatuses eps k = diff oldStatuses eps [k] []"

text \<open>The endpoints after the goroutines of a round have run.\<close>

definition probed :: "round \<Rightarrow> Endpoint list \<Rightarrow> Endpoint list" where
  "probed rnd eps = map (\<lambda>i. fst (check (outcome rnd i) (eps ! i))) [0..<length eps]"

section \<open>Example inputs\<close>

text \<open>
  The two endpoints of the scenario of the specification and two more, as a caller
  passes them to \<^verbatim>\<open>SetEndpoints\<close> (the unexported \<^verbatim>\<open>status\<close> is 0).
\<close>

definition E1 :: Endpoint where
  "E1 = \<lparr>Addr = ''10.0.0.1:9000'', CheckURL = ''http://10.0.0.1:9000/healthz'', status = 0\<rparr>"

definition E2 :: Endpoint where
  "E2 = \<lparr>Addr = ''10.0.0.2:9000'', CheckURL = ''http://10.0.0.2:9000/healthz'', status = 0\<rparr>"

definition E3 :: Endpoint where
  "E3 = \<lparr>Addr = ''10.0.0.3:9000'', CheckURL = ''http://10.0.0.3:9000/healthz'', status = 0\<rparr>"

definition E4 :: Endpoint where
  "E4 = \<lparr>Addr = ''10.0.0.4:9000'', CheckURL = ''http://10.0.0.4:9000/healthz'', status = 0\<rparr>"

text \<open>
  Four endpoints before and after a round: the first goes from 200 to 502, the second
  from 503 to 200, the third from 503 to 500, the fourth from 200 to 204.
\<close>

definition prev4 :: "Endpoint list" where
  "prev4 = [E1\<lparr>status := 200\<rparr>, E2\<lparr>status := 503\<rparr>, E3\<lparr>status := 503\<rparr>, E4\<lparr>status := 200\<rparr>]"

definition next4 :: "Endpoint list" where
  "next4 = [E1\<lparr>status := 502\<rparr>, E2\<lparr>status := 200\<rparr>, E3\<lparr>status := 500\<rparr>, E4\<lparr>status := 204\<rparr>]"

text \<open>
  The resolver over the first two endpoints as \<^verbatim>\<open>NewResolver\<close> holds it before its
  first round, and the same resolver with both endpoints at status 200.
\<close>

definition R2 :: Resolver where
  "R2 = \<lparr>endp = [E1\<lparr>status := 503\<rparr>, E2\<lparr>status := 503\<rparr>], logger = nopLogger,
          checkTimeout = defaultCheckTimeout, updateInterval = defaultUpdateInterval,
          quitc = False, updatesc = make_chan 2\<rparr>"

definition R2_up :: Resolver where
  "R2_up = R2\<lparr>endp := [E1\<lparr>status := 200\<rparr>, E2\<lparr>status := 200\<rparr>]\<rparr>"

text \<open>
  Rounds over two endpoints: both probes answer 200; the first answers 502; the
  connection to the first is refused; the deadline of the round expires before the
  first answers.
\<close>

definition rnd_ok :: round where
  "rnd_ok = \<lparr>outcome = (\<lambda>i. Response 200), order = [1, 0]\<rparr>"

definition rnd_502 :: round where
  "rnd_502 = \<lparr>outcome = (\<lambda>i. if i = 0 then Response 502 else Response 200), order = [0, 1]\<rparr>"

definition rnd_refused :: round where
  "rnd_refused = \<lparr>outcome = (\<lambda>i. if i = 0 then Failed TransportError else Response 200),
                  order = [0, 1]\<rparr>"

definition rnd_timeout :: round where
  "rnd_timeout = \<lparr>outcome = (\<lambda>i. if i = 0 then Failed DeadlineExceeded else Response 204),
                  order = [1, 0]\<rparr>"

text \<open>The two resolvers after \<^verbatim>\<open>Close\<close>, and the second holding one queued batch.\<close>

definition R2_closed :: Resolver where
  "R2_closed = R2\<lparr>quitc := True, updatesc := \<lparr>buf = [], cap = 2, closed = True\<rparr>\<rparr>"

definition R2_up_closed :: Resolver where
  "R2_up_closed = R2_up\<lparr>quitc := True, updatesc := \<lparr>buf = [], cap = 2, closed = True\<rparr>\<rparr>"

definition R2_up_queued :: "Update list \<Rightarrow> Resolver" where
  "R2_up_queued batch = R2_up\<lparr>updatesc := \<lparr>buf = [batch], cap = 2, closed = False\<rparr>\<rparr>"

text \<open>
  The second resolver with its channel full: two ticks without a change have queued
  two empty batches and \<^verbatim>\<open>Next\<close> was not called.
\<close>

definition R2_up_full :: Resolver where
  "R2_up_full = R2_up\<lparr>updatesc := \<lparr>buf = [[], []], cap = 2, closed = False\<rparr>\<rparr>"


text \<open>
  The older resolver over the first two endpoints as \<^verbatim>\<open>NewHealthzResolver\<close> holds it
  before its first round.
\<close>

definition HZ2 :: HealthzResolver where
  "HZ2 = \<lparr>hz_endp = [E1\<lparr>status := 501\<rparr>, E2\<lparr>status := 501\<rparr>],
           hz_checkTimeout = defaultCheckTimeout, hz_updateInterval = defaultUpdateInterval,
           hz_quitc = False, hz_updatesc = make_chan 2\<rparr>"

section \<open>Lemmas on the diff loop\<close>

lemma diff_append:
  "diff m eps ks acc = acc @ concat (map (entry_events m eps) ks)"
  by (induction ks arbitrary: acc)
     (auto simp: entry_events_def Let_def split: option.splits)

lemma snapshot_nth:
  "i < length eps \<Longrightarrow> snapshot eps i = Some (status (eps ! i))"
proof -
  assume i: "i < length eps"
  have "map_of (zip [0..<length eps] (map status eps)) ([0..<length eps] ! i)
        = Some (map status eps ! i)"
    by (rule map_of_zip_nth) (use i in simp_all)
  with i show ?thesis by (simp add: snapshot_def)
qed

lemma entry_events_spec:
  assumes "i < length old"
  shows "entry_events (snapshot old) new i = spec_diff (old ! i) (new ! i)"
proof -
  have "spec_events (classify a) (classify b) s =
        (if (a \<ge> 200 \<and> a < 300) \<and> \<not> (b \<ge> 200 \<and> b < 300) then [\<lparr>Op = Delete, UAddr = s\<rparr>]
         else if \<not> (a \<ge> 200 \<and> a < 300) \<and> (b \<ge> 200 \<and> b < 300) then [\<lparr>Op = Add, UAddr = s\<rparr>]
         else [])" for a b :: int and s
    by (auto simp: classify_def)
  then show ?thesis
    using assms by (simp add: entry_events_def snapshot_nth spec_diff_def Let_def)
qed

lemma mset_concat_map_cong:
  "mset ks = mset ls \<Longrightarrow> mset (concat (map f ks)) = mset (concat (map f ls))"
proof -
  assume eq: "mset ks = mset ls"
  have "mset (concat (map f xs)) = sum_mset (image_mset (\<lambda>k. mset (f k)) (mset xs))" for xs
    by (induction xs) simp_all
  with eq show ?thesis by simp
qed

lemma concat_map_single:
  "distinct ks \<Longrightarrow> \<forall>k\<in>set ks. k \<noteq> i \<longrightarrow> g k = [] \<Longrightarrow>
   concat (map g ks) = (if i \<in> set ks then g i else [])"
  by (induction ks) auto

lemma range_order_distinct: "range_order eps ks \<Longrightarrow> distinct ks"
  by (metis range_order_def distinct_upt mset_eq_imp_distinct_iff)

lemma range_order_set: "range_order eps ks \<Longrightarrow> set ks = {0..<length eps}"
  by (metis range_order_def mset_eq_setD set_upt)

lemma diff_mset:
  assumes "range_order new ks" "length old = length new"
  shows "mset (diff (snapshot old) new ks []) = mset (concat (map2 spec_diff old new))"
proof -
  let ?n = "length new"
  have "mset (diff (snapshot old) new ks [])
        = mset (concat (map (entry_events (snapshot old) new) [0..<?n]))"
    using assms(1) by (simp add: diff_append range_order_def mset_concat_map_cong)
  also have "map (entry_events (snapshot old) new) [0..<?n]
        = map (\<lambda>i. spec_diff (old ! i) (new ! i)) [0..<?n]"
    using assms(2) by (simp add: entry_events_spec)
  also have "\<dots> = map2 spec_diff old new"
    using assms(2) by (intro nth_equalityI) simp_all
  finally show ?thesis .
qed

lemma spec_diff_length: "length (spec_diff a b) \<le> 1"
  by (cases "classify (status a)"; cases "classify (status b)") (simp_all add: spec_diff_def)

lemma spec_diff_addr: "u \<in> set (spec_diff a b) \<Longrightarrow> UAddr u = Addr b"
  by (cases "classify (status a)"; cases "classify (status b)") (simp_all add: spec_diff_def)

lemma filter_spec_diff:
  "filter (\<lambda>u. UAddr u = s) (spec_diff a b) = (if Addr b = s then spec_diff a b else [])"
  by (cases "classify (status a)"; cases "classify (status b)") (simp_all add: spec_diff_def)

lemma diff_filter:
  assumes ro: "range_order new ks" and len: "length old = length new"
    and dist: "distinct (map Addr new)" and i: "i < length new"
  shows "filter (\<lambda>u. UAddr u = Addr (new ! i)) (diff (snapshot old) new ks [])
         = spec_diff (old ! i) (new ! i)"
proof -
  let ?g = "\<lambda>k. filter (\<lambda>u. UAddr u = Addr (new ! i)) (entry_events (snapshot old) new k)"
  have ks: "distinct ks" "set ks = {0..<length new}"
    using ro by (simp_all add: range_order_distinct range_order_set)
  have other: "\<forall>k\<in>set ks. k \<noteq> i \<longrightarrow> ?g k = []"
  proof (intro ballI impI)
    fix k assume k: "k \<in> set ks" "k \<noteq> i"
    then have "k < length new" using ks by simp
    moreover from this have "Addr (new ! k) \<noteq> Addr (new ! i)"
      using dist i k(2) by (simp add: distinct_conv_nth)
    ultimately show "?g k = []"
      using len by (simp add: entry_events_spec filter_spec_diff)
  qed
  have "filter (\<lambda>u. UAddr u = Addr (new ! i)) (diff (snapshot old) new ks [])
        = concat (map ?g ks)"
    by (simp add: diff_append filter_concat comp_def)
  also have "\<dots> = (if i \<in> set ks then ?g i else [])"
    using ks(1) other by (rule concat_map_single)
  also have "\<dots> = spec_diff (old ! i) (new ! i)"
    using i ks(2) len by (simp add: entry_events_spec filter_spec_diff)
  finally show ?thesis .
qed

section \<open>Lemmas on update\<close>

lemma check_snd: "snd (check p ep) = None"
  by (cases p) (simp_all add: check_def)

lemma Wait_None: "(\<forall>e\<in>set errs. e = None) \<Longrightarrow> Wait errs = None"
  by (simp add: Wait_def filter_empty_conv[THEN iffD2])

lemma update_eq:
  "update rnd r =
     (r\<lparr>endp := probed rnd (endp r)\<rparr>,
      Inr (diff (snapshot (endp r)) (probed rnd (endp r)) (order rnd) []))"
proof -
  have "Wait (map snd (map (\<lambda>i. check (outcome rnd i) (endp r ! i)) [0..<length (endp r)])) = None"
    by (rule Wait_None) (simp add: check_snd)
  then show ?thesis
    by (simp add: update_def probed_def Let_def comp_def)
qed

lemma length_probed: "length (probed rnd eps) = length eps"
  by (simp add: probed_def)

lemma probed_nth:
  "i < length eps \<Longrightarrow> probed rnd eps ! i = fst (check (outcome rnd i) (eps ! i))"
  by (simp add: probed_def)

lemma check_Addr: "Addr (fst (check p ep)) = Addr ep"
  by (cases p) (simp_all add: check_def)

lemma check_CheckURL: "CheckURL (fst (check p ep)) = CheckURL ep"
  by (cases p) (simp_all add: check_def)

lemma check_status:
  "status (fst (check p ep)) = (case p of Response code \<Rightarrow> code | Failed e \<Rightarrow> StatusServiceUnavailable)"
  by (cases p) (simp_all add: check_def)

lemma check_healthy: "classify (status (fst (check p ep))) = OK \<longleftrightarrow> healthy p"
  by (cases p) (simp_all add: check_def healthy_def classify_def StatusServiceUnavailable_def)

lemma probed_Addr: "map Addr (probed rnd eps) = map Addr eps"
  by (rule nth_equalityI) (simp_all add: length_probed probed_nth check_Addr)

lemma probed_CheckURL: "map CheckURL (probed rnd eps) = map CheckURL eps"
  by (rule nth_equalityI) (simp_all add: length_probed probed_nth check_CheckURL)


lemma mset_map_concat_le:
  "length xs = length ys \<Longrightarrow>
   mset (map UAddr (concat (map2 spec_diff xs ys))) \<subseteq># mset (map Addr ys)"
proof (induction xs ys rule: list_induct2)
  case Nil
  then show ?case by simp
next
  case (Cons x xs y ys)
  have "mset (map UAddr (spec_diff x y)) \<subseteq># {#Addr y#}"
    by (cases "classify (status x)"; cases "classify (status y)") (simp_all add: spec_diff_def)
  with Cons.IH have "mset (map UAddr (spec_diff x y)) + mset (map UAddr (concat (map2 spec_diff xs ys)))
      \<subseteq># {#Addr y#} + mset (map Addr ys)"
    by (intro subset_mset.add_mono)
  then show ?case by simp
qed

section \<open>The state diff engine\<close>

text \<open>
  Claim C1. The batch of a round is a function of the statuses before the round, the
  statuses after it and the addresses alone: whatever the order in which the map of old
  statuses is visited, the batch holds, for every endpoint, exactly the events the
  specification gives for its pair of classifications (one Delete from OK to not-OK,
  one Add from not-OK to OK, none when the classification is unchanged, as from 503 to
  500), and nothing else. With distinct addresses, the events of the batch that carry
  the address of an endpoint are exactly the events of that endpoint. The loop is the
  same in \<^verbatim>\<open>Resolver.update\<close> and \<^verbatim>\<open>HealthzResolver.update\<close>.
\<close>

theorem state_diff_engine:
  assumes "range_order new ks" and "length old = length new"
  shows "mset (diff (snapshot old) new ks []) = mset (concat (map2 spec_diff old new)) \<and>
         (distinct (map Addr new) \<longrightarrow>
            (\<forall>i<length new.
               filter (\<lambda>u. UAddr u = Addr (new ! i)) (diff (snapshot old) new ks [])
               = spec_events (classify (status (old ! i))) (classify (status (new ! i)))
                   (Addr (new ! i))))"
  using assms diff_mset diff_filter by (simp add: spec_diff_def)

theorem state_diff_engine_witness:
  "range_order next4 [2, 0, 3, 1] \<and> length prev4 = length next4 \<and>
   distinct (map Addr next4) \<and>
   diff (snapshot prev4) next4 [2, 0, 3, 1] []
     = [\<lparr>Op = Delete, UAddr = ''10.0.0.1:9000''\<rparr>, \<lparr>Op = Add, UAddr = ''10.0.0.2:9000''\<rparr>] \<and>
   mset (diff (snapshot prev4) next4 [2, 0, 3, 1] [])
     = mset (concat (map2 spec_diff prev4 next4)) \<and>
   filter (\<lambda>u. UAddr u = Addr (next4 ! 2)) (diff (snapshot prev4) next4 [2, 0, 3, 1] []) = []"
proof -
  have h1: "range_order next4 [2, 0, 3, 1]"
    by (simp add: range_order_def next4_def eval_nat_numeral)
  have h2: "length prev4 = length next4"
    by (simp add: prev4_def next4_def)
  have h3: "distinct (map Addr next4)"
    by (simp add: next4_def E1_def E2_def E3_def E4_def)
  have ev: "diff (snapshot prev4) next4 [2, 0, 3, 1] []
     = [\<lparr>Op = Delete, UAddr = ''10.0.0.1:9000''\<rparr>, \<lparr>Op = Add, UAddr = ''10.0.0.2:9000''\<rparr>]"
    by (simp add: snapshot_def prev4_def next4_def E1_def E2_def E3_def E4_def)
  have len: "2 < length next4"
    by (simp add: next4_def)
  note th = state_diff_engine [OF h1 h2]
  have c1: "mset (diff (snapshot prev4) next4 [2, 0, 3, 1] [])
     = mset (concat (map2 spec_diff prev4 next4))"
    using th by (rule conjunct1)
  have "filter (\<lambda>u. UAddr u = Addr (next4 ! 2)) (diff (snapshot prev4) next4 [2, 0, 3, 1] [])
        = spec_events (classify (status (prev4 ! 2))) (classify (status (next4 ! 2)))
            (Addr (next4 ! 2))"
    using th h3 len by blast
  then have c2: "filter (\<lambda>u. UAddr u = Addr (next4 ! 2))
                   (diff (snapshot prev4) next4 [2, 0, 3, 1] []) = []"
    by (simp add: prev4_def next4_def E3_def classify_def)
  from h1 h2 h3 ev c1 c2 show ?thesis by blast
qed

section \<open>Probe classification\<close>



lemma update_batch_mset:
  assumes "range_order (endp r) (order rnd)"
  shows "mset (diff (snapshot (endp r)) (probed rnd (endp r)) (order rnd) [])
         = mset (concat (map2 spec_diff (endp r) (probed rnd (endp r))))"
proof -
  have "range_order (probed rnd (endp r)) (order rnd)"
    using assms by (simp add: range_order_def length_probed)
  then show ?thesis
    by (rule diff_mset) (simp add: length_probed)
qed

lemma length_concat_spec_diff:
  "length xs = length ys \<Longrightarrow> length (concat (map2 spec_diff xs ys)) \<le> length ys"
proof (induction xs ys rule: list_induct2)
  case Nil
  then show ?case by simp
next
  case (Cons x xs y ys)
  then show ?case
    using spec_diff_length [of x y] by simp
qed

lemma spec_diff_in_concat:
  assumes "length xs = length ys" "i < length ys"
  shows "set (spec_diff (xs ! i) (ys ! i)) \<subseteq> set (concat (map2 spec_diff xs ys))"
proof -
  have "(xs ! i, ys ! i) \<in> set (zip xs ys)"
    using assms by (metis length_zip min.idem nth_mem nth_zip)
  then show ?thesis by force
qed

lemma updater_iter_endp:
  "endp (fst (updater_iter tick pick_quit r)) = endp r \<or>
   (\<exists>rnd. endp (fst (updater_iter tick pick_quit r)) = probed rnd (endp r))"
  by (cases tick)
     (auto simp: updater_iter_def update_eq split: outcome.splits)

section \<open>The endpoint population\<close>

text \<open>
  Claim C10. No operation changes the population: \<^verbatim>\<open>update\<close> and an iteration of the
  updater loop keep the \<^verbatim>\<open>Addr\<close> and the \<^verbatim>\<open>CheckURL\<close> of every endpoint, in order, and
  \<^verbatim>\<open>Next\<close> and \<^verbatim>\<open>Close\<close> leave the endpoints as they are. The batch of a round holds at
  most one event per endpoint: as multisets, the addresses of its events are among
  the addresses of the endpoints, so the batch is no longer than the endpoint list and
  every event carries the address of an endpoint.
\<close>

theorem population_fixed:
  "map Addr (endp (fst (update rnd r))) = map Addr (endp r) \<and>
   map CheckURL (endp (fst (update rnd r))) = map CheckURL (endp r) \<and>
   map Addr (endp (fst (updater_iter tick pick_quit r))) = map Addr (endp r) \<and>
   map CheckURL (endp (fst (updater_iter tick pick_quit r))) = map CheckURL (endp r) \<and>
   (\<forall>res r'. Next r = Return (res, r') \<longrightarrow> endp r' = endp r) \<and>
   (\<forall>r'. Close r = Return r' \<longrightarrow> endp r' = endp r) \<and>
   (range_order (endp r) (order rnd) \<longrightarrow>
      (\<exists>batch. snd (update rnd r) = Inr batch \<and>
         mset (map UAddr batch) \<subseteq># mset (map Addr (endp r)) \<and>
         length batch \<le> length (endp r) \<and>
         set (map UAddr batch) \<subseteq> set (map Addr (endp r))))"
proof -
  have upd: "map Addr (endp (fst (update rnd r))) = map Addr (endp r)"
      "map CheckURL (endp (fst (update rnd r))) = map CheckURL (endp r)"
    by (simp_all add: update_eq probed_Addr probed_CheckURL)
  have it: "map Addr (endp (fst (updater_iter tick pick_quit r))) = map Addr (endp r)"
      "map CheckURL (endp (fst (updater_iter tick pick_quit r))) = map CheckURL (endp r)"
    using updater_iter_endp [of tick pick_quit r]
    by (auto simp: probed_Addr probed_CheckURL)
  have nx: "\<forall>res r'. Next r = Return (res, r') \<longrightarrow> endp r' = endp r"
    by (auto simp: Next_def split: outcome.splits)
  have cl: "\<forall>r'. Close r = Return r' \<longrightarrow> endp r' = endp r"
    by (auto simp: Close_def split: outcome.splits if_splits)
  have batch: "\<exists>batch. snd (update rnd r) = Inr batch \<and>
         mset (map UAddr batch) \<subseteq># mset (map Addr (endp r)) \<and>
         length batch \<le> length (endp r) \<and>
         set (map UAddr batch) \<subseteq> set (map Addr (endp r))"
    if ro: "range_order (endp r) (order rnd)"
  proof -
    let ?b = "diff (snapshot (endp r)) (probed rnd (endp r)) (order rnd) []"
    let ?c = "concat (map2 spec_diff (endp r) (probed rnd (endp r)))"
    have m: "mset ?b = mset ?c"
      using ro by (rule update_batch_mset)
    have "mset (map UAddr ?b) = mset (map UAddr ?c)"
      using m by (metis mset_map)
    also have "\<dots> \<subseteq># mset (map Addr (probed rnd (endp r)))"
      by (rule mset_map_concat_le) (simp add: length_probed)
    finally have sub: "mset (map UAddr ?b) \<subseteq># mset (map Addr (endp r))"
      by (simp only: probed_Addr)
    have "length ?b = length ?c"
      using m by (rule mset_eq_length)
    also have "\<dots> \<le> length (probed rnd (endp r))"
      by (rule length_concat_spec_diff) (simp add: length_probed)
    finally have len: "length ?b \<le> length (endp r)"
      by (simp add: length_probed)
    have "set (map UAddr ?b) \<subseteq> set (map Addr (endp r))"
      using sub by (metis set_mset_mono set_mset_mset)
    with sub len show ?thesis
      by (simp add: update_eq)
  qed
  from upd it nx cl batch show ?thesis by blast
qed

lemma update_R2_up_502:
  "update rnd_502 R2_up =
     (R2_up\<lparr>endp := [E1\<lparr>status := 502\<rparr>, E2\<lparr>status := 200\<rparr>]\<rparr>,
      Inr [\<lparr>Op = Delete, UAddr = ''10.0.0.1:9000''\<rparr>])"
  by (simp add: update_def Let_def R2_up_def R2_def rnd_502_def check_def Wait_def snapshot_def
      E1_def E2_def)

lemma update_R2_up_timeout:
  "update rnd_timeout R2_up =
     (R2_up\<lparr>endp := [E1\<lparr>status := 503\<rparr>, E2\<lparr>status := 204\<rparr>]\<rparr>,
      Inr [\<lparr>Op = Delete, UAddr = ''10.0.0.1:9000''\<rparr>])"
  by (simp add: update_def Let_def R2_up_def R2_def rnd_timeout_def check_def Wait_def snapshot_def
      StatusServiceUnavailable_def E1_def E2_def)

theorem population_fixed_witness:
  "range_order (endp R2_up) (order rnd_502) \<and>
   snd (update rnd_502 R2_up) = Inr [\<lparr>Op = Delete, UAddr = ''10.0.0.1:9000''\<rparr>] \<and>
   map Addr (endp (fst (update rnd_502 R2_up))) = [''10.0.0.1:9000'', ''10.0.0.2:9000''] \<and>
   (\<exists>batch. snd (update rnd_502 R2_up) = Inr batch \<and>
         mset (map UAddr batch) \<subseteq># mset (map Addr (endp R2_up)) \<and>
         length batch \<le> length (endp R2_up) \<and>
         set (map UAddr batch) \<subseteq> set (map Addr (endp R2_up)))"
proof -
  have ro: "range_order (endp R2_up) (order rnd_502)"
    by (simp add: range_order_def R2_up_def R2_def rnd_502_def eval_nat_numeral)
  have a: "map Addr (endp R2_up) = [''10.0.0.1:9000'', ''10.0.0.2:9000'']"
    by (simp add: R2_up_def R2_def E1_def E2_def)
  note th = population_fixed [of rnd_502 R2_up None False]
  from th a have "map Addr (endp (fst (update rnd_502 R2_up))) = [''10.0.0.1:9000'', ''10.0.0.2:9000'']"
    by simp
  moreover from th ro have "\<exists>batch. snd (update rnd_502 R2_up) = Inr batch \<and>
         mset (map UAddr batch) \<subseteq># mset (map Addr (endp R2_up)) \<and>
         length batch \<le> length (endp R2_up) \<and>
         set (map UAddr batch) \<subseteq> set (map Addr (endp R2_up))"
    by blast
  moreover have "snd (update rnd_502 R2_up) = Inr [\<lparr>Op = Delete, UAddr = ''10.0.0.1:9000''\<rparr>]"
    by (simp add: update_R2_up_502)
  ultimately show ?thesis using ro by blast
qed

section \<open>A round whose deadline expires\<close>

text \<open>
  Claim C8 says that a round whose deadline expires before all probes finish is
  discarded, with no status changed and no batch. In \<^verbatim>\<open>Resolver.update\<close> a probe cut off
  by the deadline is a probe whose \<^verbatim>\<open>Get\<close> returned an error: over two endpoints at
  status 200, a round in which the first probe meets the deadline and the second
  answers 204 sets the statuses to 503 and 204 and returns the batch with the Delete of
  the first endpoint.
\<close>

theorem round_deadline_counterexample:
  "outcome rnd_timeout 0 = Failed DeadlineExceeded \<and>
   map status (endp R2_up) = [200, 200] \<and>
   map status (endp (fst (update rnd_timeout R2_up))) = [503, 204] \<and>
   snd (update rnd_timeout R2_up) = Inr [\<lparr>Op = Delete, UAddr = ''10.0.0.1:9000''\<rparr>]"
  by (simp add: update_R2_up_timeout) (simp add: rnd_timeout_def R2_up_def R2_def)

text \<open>
  Claim C8 as amended. A round of \<^verbatim>\<open>Resolver.update\<close> in which the deadline expires
  before the probe of an endpoint finishes is not discarded: \<^verbatim>\<open>update\<close> returns a batch and
  no error, that endpoint gets status 503, every endpoint whose probe was answered gets
  the code of its response, and the batch is the diff of the statuses before and after
  the round as for any other round; it holds a Delete for the endpoint when the
  endpoint was OK before. The updater loop sends this batch like any other. When the
  channel is open and has room, the iteration queues the batch and goes on to the next
  iteration, where the next tick starts the next round from the statuses this round
  stored. When the channel is open and full, the iteration stays blocked in the send,
  with the new statuses stored. Ticks are events of the model; the length of the
  interval between them is not modelled.
\<close>

theorem round_deadline_marks_unhealthy:
  assumes "range_order (endp r) (order rnd)" and "i < length (endp r)"
    and "outcome rnd i = Failed DeadlineExceeded"
  shows "\<exists>r' batch. update rnd r = (r', Inr batch) \<and>
           status (endp r' ! i) = StatusServiceUnavailable \<and>
           (\<forall>j<length (endp r). \<forall>code.
              outcome rnd j = Response code \<longrightarrow> status (endp r' ! j) = code) \<and>
           mset batch = mset (concat (map2 spec_diff (endp r) (endp r'))) \<and>
           (classify (status (endp r ! i)) = OK \<longrightarrow>
              \<lparr>Op = Delete, UAddr = Addr (endp r ! i)\<rparr> \<in> set batch) \<and>
           (\<not> closed (updatesc r) \<and> length (buf (updatesc r)) < cap (updatesc r) \<longrightarrow>
              updater_iter (Some rnd) False r
                = (r'\<lparr>updatesc := (updatesc r)\<lparr>buf := buf (updatesc r) @ [batch]\<rparr>\<rparr>,
                   Continue) \<and>
              (\<forall>rnd2. endp (fst (updater_iter (Some rnd2) False
                          (r'\<lparr>updatesc := (updatesc r)\<lparr>buf := buf (updatesc r) @ [batch]\<rparr>\<rparr>)))
                       = endp (fst (update rnd2 r')))) \<and>
           (\<not> closed (updatesc r) \<and> cap (updatesc r) \<le> length (buf (updatesc r)) \<longrightarrow>
              updater_iter (Some rnd) False r = (r', SendBlocked))"
proof -
  let ?new = "probed rnd (endp r)"
  let ?b = "diff (snapshot (endp r)) ?new (order rnd) []"
  let ?r' = "r\<lparr>endp := ?new\<rparr>"
  let ?r2 = "?r'\<lparr>updatesc := (updatesc r)\<lparr>buf := buf (updatesc r) @ [?b]\<rparr>\<rparr>"
  have u: "update rnd r = (?r', Inr ?b)"
    by (rule update_eq)
  have st: "status (endp ?r' ! i) = StatusServiceUnavailable"
    using assms(2,3) by (simp add: probed_nth check_status)
  have resp: "\<forall>j<length (endp r). \<forall>code.
      outcome rnd j = Response code \<longrightarrow> status (endp ?r' ! j) = code"
    by (simp add: probed_nth check_status)
  have m: "mset ?b = mset (concat (map2 spec_diff (endp r) (endp ?r')))"
    using update_batch_mset [OF assms(1)] by simp
  have del: "classify (status (endp r ! i)) = OK \<longrightarrow>
      \<lparr>Op = Delete, UAddr = Addr (endp r ! i)\<rparr> \<in> set ?b"
  proof
    assume ok: "classify (status (endp r ! i)) = OK"
    have "classify (status (?new ! i)) = NotOK"
      using st by (simp add: classify_def StatusServiceUnavailable_def)
    moreover have "Addr (?new ! i) = Addr (endp r ! i)"
      using assms(2) by (simp add: probed_nth check_Addr)
    ultimately have "\<lparr>Op = Delete, UAddr = Addr (endp r ! i)\<rparr>
        \<in> set (spec_diff (endp r ! i) (?new ! i))"
      using ok by (simp add: spec_diff_def)
    moreover have "set (spec_diff (endp r ! i) (?new ! i))
        \<subseteq> set (concat (map2 spec_diff (endp r) ?new))"
      by (rule spec_diff_in_concat) (use assms(2) in \<open>simp_all add: length_probed\<close>)
    ultimately have "\<lparr>Op = Delete, UAddr = Addr (endp r ! i)\<rparr>
        \<in> set (concat (map2 spec_diff (endp r) ?new))"
      by blast
    then show "\<lparr>Op = Delete, UAddr = Addr (endp r ! i)\<rparr> \<in> set ?b"
      using update_batch_mset [OF assms(1)] by (metis set_mset_mset)
  qed
  have nxt: "endp (fst (updater_iter (Some rnd2) False ?r2)) = endp (fst (update rnd2 ?r'))"
    for rnd2
    by (simp add: updater_iter_def update_eq split: outcome.splits)
  have room: "\<not> closed (updatesc r) \<and> length (buf (updatesc r)) < cap (updatesc r) \<longrightarrow>
      updater_iter (Some rnd) False r = (?r2, Continue) \<and>
      (\<forall>rnd2. endp (fst (updater_iter (Some rnd2) False ?r2)) = endp (fst (update rnd2 ?r')))"
    using nxt by (simp add: updater_iter_def u send_def)
  have full: "\<not> closed (updatesc r) \<and> cap (updatesc r) \<le> length (buf (updatesc r)) \<longrightarrow>
      updater_iter (Some rnd) False r = (?r', SendBlocked)"
    by (simp add: updater_iter_def u send_def)
  from u st resp m del room full show ?thesis
    by blast
qed

theorem round_deadline_marks_unhealthy_witness:
  "range_order (endp R2_up) (order rnd_timeout) \<and> 0 < length (endp R2_up) \<and>
   outcome rnd_timeout 0 = Failed DeadlineExceeded \<and>
   classify (status (endp R2_up ! 0)) = OK \<and>
   (\<exists>r' batch. update rnd_timeout R2_up = (r', Inr batch) \<and>
      status (endp r' ! 0) = 503 \<and>
      \<lparr>Op = Delete, UAddr = ''10.0.0.1:9000''\<rparr> \<in> set batch) \<and>
   \<not> closed (updatesc R2_up) \<and> length (buf (updatesc R2_up)) < cap (updatesc R2_up) \<and>
   updater_iter (Some rnd_timeout) False R2_up
     = (R2_up\<lparr>endp := [E1\<lparr>status := 503\<rparr>, E2\<lparr>status := 204\<rparr>],
              updatesc := \<lparr>buf = [[\<lparr>Op = Delete, UAddr = ''10.0.0.1:9000''\<rparr>]], cap = 2,
                           closed = False\<rparr>\<rparr>, Continue) \<and>
   range_order (endp R2_up_full) (order rnd_timeout) \<and> 0 < length (endp R2_up_full) \<and>
   \<not> closed (updatesc R2_up_full) \<and>
   cap (updatesc R2_up_full) \<le> length (buf (updatesc R2_up_full)) \<and>
   updater_iter (Some rnd_timeout) False R2_up_full
     = (R2_up_full\<lparr>endp := [E1\<lparr>status := 503\<rparr>, E2\<lparr>status := 204\<rparr>]\<rparr>, SendBlocked)"
proof -
  have h1: "range_order (endp R2_up) (order rnd_timeout)"
    by (simp add: range_order_def R2_up_def R2_def rnd_timeout_def eval_nat_numeral)
  have h2: "0 < length (endp R2_up)"
    by (simp add: R2_up_def R2_def)
  have h3: "outcome rnd_timeout 0 = Failed DeadlineExceeded"
    by (simp add: rnd_timeout_def)
  have ok: "classify (status (endp R2_up ! 0)) = OK"
    by (simp add: R2_up_def R2_def classify_def)
  have a: "Addr (endp R2_up ! 0) = ''10.0.0.1:9000''"
    by (simp add: R2_up_def R2_def E1_def)
  have room: "\<not> closed (updatesc R2_up)" "length (buf (updatesc R2_up)) < cap (updatesc R2_up)"
    by (simp_all add: R2_up_def R2_def make_chan_def)
  have ch: "updatesc R2_up = \<lparr>buf = [], cap = 2, closed = False\<rparr>"
    by (simp add: R2_up_def R2_def make_chan_def)
  note th = round_deadline_marks_unhealthy [OF h1 h2 h3]
  from th ok a
  have c1: "\<exists>r' batch. update rnd_timeout R2_up = (r', Inr batch) \<and>
      status (endp r' ! 0) = 503 \<and>
      \<lparr>Op = Delete, UAddr = ''10.0.0.1:9000''\<rparr> \<in> set batch"
    by (auto simp: StatusServiceUnavailable_def)
  from th room obtain r' batch where "update rnd_timeout R2_up = (r', Inr batch)"
    and it: "updater_iter (Some rnd_timeout) False R2_up
       = (r'\<lparr>updatesc := (updatesc R2_up)\<lparr>buf := buf (updatesc R2_up) @ [batch]\<rparr>\<rparr>, Continue)"
    by blast
  then have c2: "updater_iter (Some rnd_timeout) False R2_up
     = (R2_up\<lparr>endp := [E1\<lparr>status := 503\<rparr>, E2\<lparr>status := 204\<rparr>],
              updatesc := \<lparr>buf = [[\<lparr>Op = Delete, UAddr = ''10.0.0.1:9000''\<rparr>]], cap = 2,
                           closed = False\<rparr>\<rparr>, Continue)"
    by (simp add: update_R2_up_timeout ch)
  have f1: "range_order (endp R2_up_full) (order rnd_timeout)"
    using h1 by (simp add: R2_up_full_def)
  have f2: "0 < length (endp R2_up_full)"
    using h2 by (simp add: R2_up_full_def)
  have full: "\<not> closed (updatesc R2_up_full)"
      "cap (updatesc R2_up_full) \<le> length (buf (updatesc R2_up_full))"
    by (simp_all add: R2_up_full_def)
  have uf: "update rnd_timeout R2_up_full
     = (R2_up_full\<lparr>endp := [E1\<lparr>status := 503\<rparr>, E2\<lparr>status := 204\<rparr>]\<rparr>,
        Inr [\<lparr>Op = Delete, UAddr = ''10.0.0.1:9000''\<rparr>])"
    by (simp add: update_def Let_def R2_up_full_def R2_up_def R2_def rnd_timeout_def check_def
        Wait_def snapshot_def StatusServiceUnavailable_def E1_def E2_def)
  from round_deadline_marks_unhealthy [OF f1 f2 h3] full
  obtain r'' batch' where "update rnd_timeout R2_up_full = (r'', Inr batch')"
    and "updater_iter (Some rnd_timeout) False R2_up_full = (r'', SendBlocked)"
    by blast
  then have c3: "updater_iter (Some rnd_timeout) False R2_up_full
     = (R2_up_full\<lparr>endp := [E1\<lparr>status := 503\<rparr>, E2\<lparr>status := 204\<rparr>]\<rparr>, SendBlocked)"
    by (simp add: uf)
  from h1 h2 h3 ok c1 room c2 f1 f2 full c3 show ?thesis
    by blast
qed

section \<open>Lemmas on Next, Close and the updater loop\<close>

lemma Close_Return_again: "Close r = Return r' \<Longrightarrow> Close r' = Return r'"
  by (auto simp: Close_def close_chan_def split: if_splits)

lemma Close_open:
  "\<not> quitc r \<Longrightarrow> \<not> closed (updatesc r) \<Longrightarrow>
   Close r = Return (r\<lparr>quitc := True, updatesc := (updatesc r)\<lparr>closed := True\<rparr>\<rparr>)"
  by (simp add: Close_def close_chan_def)

lemma Next_cases:
  "Next r =
     (case buf (updatesc r) of
        b # bs \<Rightarrow> Return ((b, None), r\<lparr>updatesc := (updatesc r)\<lparr>buf := bs\<rparr>\<rparr>)
      | [] \<Rightarrow> if closed (updatesc r) then Return (([], None), r) else Block)"
  by (simp add: Next_def recv_def split: list.splits)

lemma updater_iter_not_Returned: "snd (updater_iter tick pick_quit r) \<noteq> Returned"
  by (cases tick)
     (auto simp: updater_iter_def update_eq split: outcome.splits)

lemma Close_R2: "Close R2 = Return R2_closed"
  by (simp add: Close_def close_chan_def R2_def R2_closed_def make_chan_def)

lemma Close_R2_up: "Close R2_up = Return R2_up_closed"
  by (simp add: Close_def close_chan_def R2_up_def R2_def R2_up_closed_def make_chan_def)

lemma update_R2_up_ok:
  "update rnd_ok R2_up = (R2_up, Inr [])"
  by (simp add: update_def Let_def R2_up_def R2_def rnd_ok_def check_def Wait_def snapshot_def
      E1_def E2_def)

lemma update_R2_ok:
  "update rnd_ok R2 =
     (R2_up, Inr [\<lparr>Op = Add, UAddr = ''10.0.0.2:9000''\<rparr>, \<lparr>Op = Add, UAddr = ''10.0.0.1:9000''\<rparr>])"
  by (simp add: update_def Let_def R2_up_def R2_def rnd_ok_def check_def Wait_def snapshot_def
      E1_def E2_def)

section \<open>Idempotent close\<close>

text \<open>
  Claim C9. Any number of calls of \<^verbatim>\<open>Close\<close> in sequence, one or more, ends as one call
  does. On a resolver whose two channels agree (both open or both closed, as they are
  after \<^verbatim>\<open>NewResolver\<close> and after every operation), the call returns without panic, a
  further call changes nothing, and the endpoints and the queued batches are as before.
  \<^verbatim>\<open>HealthzResolver.Close\<close> is the same function.
\<close>

theorem Close_idempotent:
  "Close_times (Suc n) r = Close r \<and>
   (quitc r = closed (updatesc r) \<longrightarrow>
      (\<exists>r'. Close r = Return r' \<and> Close r' = Return r' \<and> quitc r' \<and>
            closed (updatesc r') \<and> endp r' = endp r \<and>
            buf (updatesc r') = buf (updatesc r)))"
proof
  show "Close_times (Suc n) r = Close r"
  proof (induction n)
    case 0
    show ?case by (simp split: outcome.splits)
  next
    case (Suc n)
    show ?case
    proof (cases "Close r")
      case (Return r')
      then have "Close_times (Suc (Suc n)) r = Close_times (Suc n) r'"
        by simp
      also have "\<dots> = Close_times (Suc n) r"
        using Return Close_Return_again [OF Return] by simp
      finally show ?thesis using Suc by simp
    qed simp_all
  qed
next
  show "quitc r = closed (updatesc r) \<longrightarrow>
      (\<exists>r'. Close r = Return r' \<and> Close r' = Return r' \<and> quitc r' \<and>
            closed (updatesc r') \<and> endp r' = endp r \<and>
            buf (updatesc r') = buf (updatesc r))"
    by (auto simp: Close_def close_chan_def)
qed

theorem Close_idempotent_witness:
  "quitc R2 = closed (updatesc R2) \<and> Close R2 = Return R2_closed \<and>
   Close_times 3 R2 = Return R2_closed \<and> Close R2_closed = Return R2_closed"
proof -
  have inv: "quitc R2 = closed (updatesc R2)"
    by (simp add: R2_def make_chan_def)
  have three: "(3::nat) = Suc 2" by simp
  have "Close_times 3 R2 = Close R2"
    using Close_idempotent [of 2 R2] by (simp only: three)
  moreover from Close_idempotent [of 2 R2] inv
  obtain r' where "Close R2 = Return r'" "Close r' = Return r'"
    by blast
  ultimately show ?thesis
    using inv by (simp add: Close_R2)
qed

section \<open>Next and errors\<close>

text \<open>
  Claim C6 says that \<^verbatim>\<open>Next\<close> returns an error if and only if the channel has been
  closed. On the closed resolver with nothing queued, \<^verbatim>\<open>Next\<close> returns the nil batch and
  the nil error.
\<close>

theorem Next_after_Close_counterexample:
  "Close R2 = Return R2_closed \<and> closed (updatesc R2_closed) \<and>
   Next R2_closed = Return (([], None), R2_closed)"
  by (simp add: Close_R2 Next_cases) (simp add: R2_closed_def)

text \<open>
  Claim C6 as amended. \<^verbatim>\<open>Next\<close> never returns an error and never panics. It blocks
  exactly when the channel is open and nothing is queued. When a batch is queued it
  returns the oldest one, closed or not; when the channel is closed and nothing is
  queued it returns the nil batch and the nil error at once and leaves the resolver as
  it is. So after \<^verbatim>\<open>Close\<close>, \<^verbatim>\<open>Next\<close> never blocks.
\<close>

theorem Next_never_errors:
  "Next r \<noteq> Panic \<and>
   (\<forall>batch err r'. Next r = Return ((batch, err), r') \<longrightarrow> err = None) \<and>
   (Next r = Block \<longleftrightarrow> \<not> closed (updatesc r) \<and> buf (updatesc r) = []) \<and>
   (closed (updatesc r) \<and> buf (updatesc r) = [] \<longrightarrow> Next r = Return (([], None), r)) \<and>
   (\<forall>b bs. buf (updatesc r) = b # bs \<longrightarrow>
      Next r = Return ((b, None), r\<lparr>updatesc := (updatesc r)\<lparr>buf := bs\<rparr>\<rparr>)) \<and>
   (\<forall>rc. quitc r = closed (updatesc r) \<and> Close r = Return rc \<longrightarrow> Next rc \<noteq> Block)"
proof -
  have "Next rc \<noteq> Block" if "quitc r = closed (updatesc r)" "Close r = Return rc" for rc
  proof -
    have "closed (updatesc rc)"
      using that by (auto simp: Close_def close_chan_def split: if_splits)
    then show ?thesis
      by (simp add: Next_cases split: list.splits)
  qed
  then show ?thesis
    by (auto simp: Next_cases split: list.splits)
qed

theorem Next_never_errors_witness:
  "quitc R2_up = closed (updatesc R2_up) \<and> Close R2_up = Return R2_up_closed \<and>
   Next R2_up_closed \<noteq> Block \<and> Next R2_up_closed = Return (([], None), R2_up_closed) \<and>
   Next R2_up = Block \<and>
   Next (R2_up_queued []) = Return (([], None), R2_up)"
proof -
  have inv: "quitc R2_up = closed (updatesc R2_up)"
    by (simp add: R2_up_def R2_def make_chan_def)
  have c: "closed (updatesc R2_up_closed) \<and> buf (updatesc R2_up_closed) = []"
    by (simp add: R2_up_closed_def)
  have o: "\<not> closed (updatesc R2_up) \<and> buf (updatesc R2_up) = []"
    by (simp add: R2_up_def R2_def make_chan_def)
  have q: "buf (updatesc (R2_up_queued [])) = [] # []"
    by (simp add: R2_up_queued_def)
  have q': "R2_up_queued []\<lparr>updatesc := (updatesc (R2_up_queued []))\<lparr>buf := []\<rparr>\<rparr> = R2_up"
    by (simp add: R2_up_queued_def R2_up_def R2_def make_chan_def)
  have "Next R2_up_closed \<noteq> Block"
    using Next_never_errors [of R2_up] inv Close_R2_up by blast
  moreover have "Next R2_up_closed = Return (([], None), R2_up_closed)"
    using Next_never_errors [of R2_up_closed] c by blast
  moreover have "Next R2_up = Block"
    using Next_never_errors [of R2_up] o by blast
  moreover have "Next (R2_up_queued []) = Return (([], None), R2_up)"
    using Next_never_errors [of "R2_up_queued []"] q q' by metis
  ultimately show ?thesis
    using inv Close_R2_up by blast
qed

section \<open>The updater loop after Close\<close>

text \<open>
  Claim C7 says that no round is started after \<^verbatim>\<open>Close\<close>. In \<^verbatim>\<open>updater\<close> the \<^verbatim>\<open>break\<close> of
  \<^verbatim>\<open>case <-r.quitc\<close> leaves the \<^verbatim>\<open>select\<close>, not the \<^verbatim>\<open>for\<close> loop: on the closed resolver an
  iteration that finds the closed \<^verbatim>\<open>quitc\<close> goes on to the next iteration, and an
  iteration that takes a pending tick runs the round, writes the new statuses into the
  endpoints, and panics in the send on the closed channel.
\<close>

theorem updater_runs_round_after_Close:
  "Close R2_up = Return R2_up_closed \<and>
   updater_iter None True R2_up_closed = (R2_up_closed, Continue) \<and>
   updater_iter (Some rnd_502) True R2_up_closed = (R2_up_closed, Continue) \<and>
   updater_iter (Some rnd_502) False R2_up_closed
     = (R2_up_closed\<lparr>endp := [E1\<lparr>status := 502\<rparr>, E2\<lparr>status := 200\<rparr>]\<rparr>, Panicked)"
proof -
  have q: "quitc R2_up_closed" "closed (updatesc R2_up_closed)"
    by (simp_all add: R2_up_closed_def)
  have u: "update rnd_502 R2_up_closed
     = (R2_up_closed\<lparr>endp := [E1\<lparr>status := 502\<rparr>, E2\<lparr>status := 200\<rparr>]\<rparr>,
        Inr [\<lparr>Op = Delete, UAddr = ''10.0.0.1:9000''\<rparr>])"
    by (simp add: update_def Let_def R2_up_closed_def R2_up_def R2_def rnd_502_def check_def
        Wait_def snapshot_def E1_def E2_def)
  show ?thesis
    using q by (simp add: Close_R2_up updater_iter_def u send_def)
qed

section \<open>Lemmas on NewResolver\<close>

lemma apply_options_endp:
  "\<exists>r'. apply_options opts r = Inr r' \<and> quitc r' = quitc r \<and> updatesc r' = updatesc r \<and>
        endp r' = (case List.map_filter endpoints_of opts of
                     [] \<Rightarrow> endp r
                   | e # es \<Rightarrow> map stored (last (e # es)))"
proof (induction opts arbitrary: r)
  case Nil
  show ?case by simp
next
  case (Cons opt opts)
  obtain r1 where r1: "apply_option opt r = Inr r1" "quitc r1 = quitc r"
      "updatesc r1 = updatesc r"
      "endp r1 = (case endpoints_of opt of None \<Rightarrow> endp r | Some eps \<Rightarrow> map stored eps)"
    by (cases opt) (simp_all add: stored_def)
  from Cons.IH [of r1] obtain r' where r': "apply_options opts r1 = Inr r'"
      "quitc r' = quitc r1" "updatesc r' = updatesc r1"
      "endp r' = (case List.map_filter endpoints_of opts of
                     [] \<Rightarrow> endp r1
                   | e # es \<Rightarrow> map stored (last (e # es)))"
    by blast
  have "endp r' = (case List.map_filter endpoints_of (opt # opts) of
                     [] \<Rightarrow> endp r
                   | e # es \<Rightarrow> map stored (last (e # es)))"
    using r'(4) r1(4)
    by (cases "endpoints_of opt"; cases "List.map_filter endpoints_of opts")
       simp_all
  with r1 r' show ?case by simp
qed

lemma send_fresh:
  "0 < n \<Longrightarrow> send (make_chan n) b = Return \<lparr>buf = [b], cap = n, closed = False\<rparr>"
  by (simp add: send_def make_chan_def)

lemma NewResolver_cases:
  "NewResolver opts rnd =
     (let eps = map stored (configured_endpoints opts);
          b = diff (snapshot eps) (probed rnd eps) (order rnd) []
      in if configured_endpoints opts = [] then Return (Inl ErrNoEndpoints)
         else Return (Inr \<lparr>endp = probed rnd eps, logger = logger r0,
                checkTimeout = checkTimeout r0, updateInterval = updateInterval r0,
                quitc = False,
                updatesc = \<lparr>buf = (if b = [] then [] else [b]), cap = length eps,
                            closed = False\<rparr>\<rparr>))"
  if "apply_options opts \<lparr>endp = [], logger = nopLogger, checkTimeout = defaultCheckTimeout,
              updateInterval = defaultUpdateInterval, quitc = False,
              updatesc = make_chan 0\<rparr> = Inr r0"
proof -
  let ?init = "\<lparr>endp = [], logger = nopLogger, checkTimeout = defaultCheckTimeout,
              updateInterval = defaultUpdateInterval, quitc = False,
              updatesc = make_chan 0\<rparr>"
  from apply_options_endp [of opts ?init] that
  have q: "quitc r0 = False" and e: "endp r0 = map stored (configured_endpoints opts)"
    by (auto simp: configured_endpoints_def split: list.splits)
  show ?thesis
  proof (cases "configured_endpoints opts = []")
    case True
    then show ?thesis using that e by (simp add: NewResolver_def)
  next
    case False
    then have n: "0 < length (endp r0)" using e by simp
    show ?thesis
      using False that e q n
      by (simp add: NewResolver_def update_eq Let_def send_fresh) (simp add: make_chan_def)
  qed
qed

lemma NewResolver_two_ok:
  "NewResolver [SetEndpoints [E1, E2]] rnd_ok
     = Return (Inr (R2_up_queued [\<lparr>Op = Add, UAddr = ''10.0.0.2:9000''\<rparr>,
                                  \<lparr>Op = Add, UAddr = ''10.0.0.1:9000''\<rparr>]))"
  by (simp add: NewResolver_def update_def Let_def check_def Wait_def snapshot_def send_def
      make_chan_def rnd_ok_def R2_up_queued_def R2_up_def R2_def E1_def E2_def
      StatusServiceUnavailable_def)


section \<open>Construction\<close>



section \<open>Empty batches\<close>

text \<open>
  Claim C5 says that \<^verbatim>\<open>Next\<close> never delivers an empty batch. \<^verbatim>\<open>NewResolver\<close> sends the
  batch of its round only when \<^verbatim>\<open>len(updates) > 0\<close>; \<^verbatim>\<open>updater\<close> sends the batch of every
  round that returned no error. Over two endpoints that answer 200 in the first round
  and again at the first tick: the first \<^verbatim>\<open>Next\<close> returns the two Add events, the
  iteration of the updater queues the empty batch, and the second \<^verbatim>\<open>Next\<close> returns it.
\<close>

theorem updater_pushes_empty_batch:
  "NewResolver [SetEndpoints [E1, E2]] rnd_ok
     = Return (Inr (R2_up_queued [\<lparr>Op = Add, UAddr = ''10.0.0.2:9000''\<rparr>,
                                  \<lparr>Op = Add, UAddr = ''10.0.0.1:9000''\<rparr>])) \<and>
   Next (R2_up_queued [\<lparr>Op = Add, UAddr = ''10.0.0.2:9000''\<rparr>,
                       \<lparr>Op = Add, UAddr = ''10.0.0.1:9000''\<rparr>])
     = Return (([\<lparr>Op = Add, UAddr = ''10.0.0.2:9000''\<rparr>,
                 \<lparr>Op = Add, UAddr = ''10.0.0.1:9000''\<rparr>], None), R2_up) \<and>
   updater_iter (Some rnd_ok) False R2_up = (R2_up_queued [], Continue) \<and>
   Next (R2_up_queued []) = Return (([], None), R2_up)"
proof -
  have n: "Next (R2_up_queued b) = Return ((b, None), R2_up)" for b
    by (simp add: Next_cases R2_up_queued_def) (simp add: R2_up_def R2_def make_chan_def)
  have "updater_iter (Some rnd_ok) False R2_up = (R2_up_queued [], Continue)"
    by (simp add: updater_iter_def update_R2_up_ok send_def)
       (simp add: R2_up_queued_def R2_up_def R2_def make_chan_def)
  with n show ?thesis
    by (simp add: NewResolver_two_ok)
qed

section \<open>The first round\<close>

lemma map2_nth:
  "length xs = length ys \<Longrightarrow> map2 f xs ys = map (\<lambda>i. f (xs ! i) (ys ! i)) [0..<length ys]"
  by (intro nth_equalityI) simp_all

lemma concat_map_if:
  "concat (map (\<lambda>x. if P x then [f x] else []) xs) = map f (filter P xs)"
  by (induction xs) simp_all

lemma first_round_spec_diff:
  assumes "i < length eps"
  shows "spec_diff (map stored eps ! i) (probed rnd (map stored eps) ! i)
         = (if healthy (outcome rnd i) then [add_event (eps ! i)] else [])"
proof -
  let ?new = "probed rnd (map stored eps) ! i"
  have old: "classify (status (map stored eps ! i)) = NotOK"
    using assms by (simp add: stored_def classify_def StatusServiceUnavailable_def)
  have new: "classify (status ?new) = OK \<longleftrightarrow> healthy (outcome rnd i)"
    using assms by (simp only: probed_nth length_map check_healthy)
  have addr: "Addr ?new = Addr (eps ! i)"
    using assms by (simp add: probed_nth check_Addr stored_def)
  show ?thesis
    using old new addr
    by (cases "classify (status ?new)") (simp_all add: spec_diff_def add_event_def)
qed

lemma first_round_mset:
  assumes "range_order eps (order rnd)"
  shows "mset (diff (snapshot (map stored eps)) (probed rnd (map stored eps)) (order rnd) [])
         = mset (map add_event (healthy_endpoints rnd eps))"
proof -
  let ?old = "map stored eps"
  let ?new = "probed rnd ?old"
  have len: "length ?old = length ?new" "length ?new = length eps"
    by (simp_all add: length_probed)
  have ro: "range_order ?new (order rnd)"
    using assms by (simp add: range_order_def length_probed)
  have "map2 spec_diff ?old ?new
        = map (\<lambda>i. spec_diff (?old ! i) (?new ! i)) [0..<length eps]"
    using map2_nth [OF len(1), of spec_diff] by (simp only: len(2))
  also have "\<dots> = map (\<lambda>i. if healthy (outcome rnd i) then [add_event (eps ! i)] else [])
                     [0..<length eps]"
  proof (rule map_cong [OF refl])
    fix i assume "i \<in> set [0..<length eps]"
    then have "i < length eps" by simp
    then show "spec_diff (?old ! i) (?new ! i)
        = (if healthy (outcome rnd i) then [add_event (eps ! i)] else [])"
      by (rule first_round_spec_diff)
  qed
  finally have "concat (map2 spec_diff ?old ?new) = map add_event (healthy_endpoints rnd eps)"
    by (simp add: concat_map_if healthy_endpoints_def)
  with diff_mset [OF ro len(1)] show ?thesis by simp
qed

lemma healthy_endpoints_all:
  "\<forall>i<length eps. healthy (outcome rnd i) \<Longrightarrow> healthy_endpoints rnd eps = eps"
  by (simp add: healthy_endpoints_def map_nth)

section \<open>Initial baseline\<close>

text \<open>
  Claim C2. \<^verbatim>\<open>NewResolver\<close> over a configured list that is not empty returns a resolver,
  and the first \<^verbatim>\<open>Next\<close> on it returns the batch of the first round: the Add events of
  exactly the endpoints whose first probe was healthy, one per endpoint; an endpoint
  that is unhealthy in the first round gives no event, since \<^verbatim>\<open>SetEndpoints\<close> stores
  every endpoint with the not-OK status 503. When all N endpoints are healthy the
  batch has N events, one Add per endpoint, and with distinct addresses every address
  occurs in it exactly once. When no endpoint is healthy nothing is queued and \<^verbatim>\<open>Next\<close>
  blocks.
\<close>

theorem initial_baseline:
  assumes "configured_endpoints opts \<noteq> []"
    and "range_order (configured_endpoints opts) (order rnd)"
  shows "\<exists>r. NewResolver opts rnd = Return (Inr r) \<and>
           (healthy_endpoints rnd (configured_endpoints opts) = [] \<longrightarrow> Next r = Block) \<and>
           (healthy_endpoints rnd (configured_endpoints opts) \<noteq> [] \<longrightarrow>
              (\<exists>batch r'. Next r = Return ((batch, None), r') \<and>
                 mset batch
                 = mset (map add_event (healthy_endpoints rnd (configured_endpoints opts))))) \<and>
           ((\<forall>i<length (configured_endpoints opts). healthy (outcome rnd i)) \<longrightarrow>
              (\<exists>batch r'. Next r = Return ((batch, None), r') \<and>
                 length batch = length (configured_endpoints opts) \<and>
                 mset batch = mset (map add_event (configured_endpoints opts)) \<and>
                 (distinct (map Addr (configured_endpoints opts)) \<longrightarrow>
                    (\<forall>ep\<in>set (configured_endpoints opts).
                       count_list (map UAddr batch) (Addr ep) = 1)))) \<and>
           (\<forall>ep\<in>set (map stored (configured_endpoints opts)). classify (status ep) = NotOK)"
proof -
  let ?eps = "configured_endpoints opts"
  let ?b = "diff (snapshot (map stored ?eps)) (probed rnd (map stored ?eps)) (order rnd) []"
  obtain r0 where "apply_options opts \<lparr>endp = [], logger = nopLogger,
      checkTimeout = defaultCheckTimeout, updateInterval = defaultUpdateInterval,
      quitc = False, updatesc = make_chan 0\<rparr> = Inr r0"
    using apply_options_endp by blast
  from NewResolver_cases [OF this, of rnd] assms(1)
  obtain r where r: "NewResolver opts rnd = Return (Inr r)"
    and ch: "updatesc r = \<lparr>buf = (if ?b = [] then [] else [?b]), cap = length (map stored ?eps),
                           closed = False\<rparr>"
    by (simp add: Let_def)
  have m: "mset ?b = mset (map add_event (healthy_endpoints rnd ?eps))"
    using assms(2) by (rule first_round_mset)
  have none: "Next r = Block" if "healthy_endpoints rnd ?eps = []"
  proof -
    from m that have "?b = []" by simp
    with ch show ?thesis by (simp add: Next_cases)
  qed
  have some: "\<exists>r'. Next r = Return ((?b, None), r')" if "healthy_endpoints rnd ?eps \<noteq> []"
  proof -
    from m that have "?b \<noteq> []" by auto
    with ch show ?thesis by (simp add: Next_cases)
  qed
  have all: "\<exists>batch r'. Next r = Return ((batch, None), r') \<and>
                 length batch = length ?eps \<and>
                 mset batch = mset (map add_event ?eps) \<and>
                 (distinct (map Addr ?eps) \<longrightarrow>
                    (\<forall>ep\<in>set ?eps. count_list (map UAddr batch) (Addr ep) = 1))"
    if h: "\<forall>i<length ?eps. healthy (outcome rnd i)"
  proof -
    have he: "healthy_endpoints rnd ?eps = ?eps"
      using h by (rule healthy_endpoints_all)
    with assms(1) some obtain r' where n: "Next r = Return ((?b, None), r')"
      by auto
    have mb: "mset ?b = mset (map add_event ?eps)"
      using m he by simp
    then have lb: "length ?b = length ?eps"
      by (metis length_map mset_eq_length)
    have "mset (map UAddr ?b) = mset (map UAddr (map add_event ?eps))"
      using mb by (metis mset_map)
    then have ma: "mset (map UAddr ?b) = mset (map Addr ?eps)"
      by (simp add: add_event_def comp_def)
    have "count_list (map UAddr ?b) (Addr ep) = 1"
      if d: "distinct (map Addr ?eps)" and ep: "ep \<in> set ?eps" for ep
    proof -
      have "count (mset (map Addr ?eps)) (Addr ep) = 1"
        using d ep by (simp add: distinct_count_atmost_1)
      then show ?thesis
        using ma by (metis count_mset)
    qed
    with n mb lb show ?thesis by blast
  qed
  have sentinel: "\<forall>ep\<in>set (map stored ?eps). classify (status ep) = NotOK"
    by (simp add: stored_def classify_def StatusServiceUnavailable_def)
  from r none some m all sentinel show ?thesis
    by blast
qed

theorem initial_baseline_witness:
  "configured_endpoints [SetEndpoints [E1, E2]] \<noteq> [] \<and>
   range_order (configured_endpoints [SetEndpoints [E1, E2]]) (order rnd_ok) \<and>
   healthy (outcome rnd_ok 0) \<and> healthy (outcome rnd_ok 1) \<and>
   distinct (map Addr (configured_endpoints [SetEndpoints [E1, E2]])) \<and>
   (\<exists>r batch r'. NewResolver [SetEndpoints [E1, E2]] rnd_ok = Return (Inr r) \<and>
      Next r = Return ((batch, None), r') \<and> length batch = 2 \<and>
      mset batch = {#\<lparr>Op = Add, UAddr = ''10.0.0.1:9000''\<rparr>,
                     \<lparr>Op = Add, UAddr = ''10.0.0.2:9000''\<rparr>#} \<and>
      count_list (map UAddr batch) ''10.0.0.1:9000'' = 1)"
proof -
  have c: "configured_endpoints [SetEndpoints [E1, E2]] = [E1, E2]"
    by (simp add: configured_endpoints_def)
  have h1: "configured_endpoints [SetEndpoints [E1, E2]] \<noteq> []"
    by (simp add: c)
  have h2: "range_order (configured_endpoints [SetEndpoints [E1, E2]]) (order rnd_ok)"
    by (simp add: c range_order_def rnd_ok_def eval_nat_numeral)
  have h3: "\<forall>i<length (configured_endpoints [SetEndpoints [E1, E2]]). healthy (outcome rnd_ok i)"
    by (simp add: rnd_ok_def healthy_def)
  have h4: "distinct (map Addr (configured_endpoints [SetEndpoints [E1, E2]]))"
    unfolding c by (simp add: E1_def E2_def)
  have h5: "E1 \<in> set (configured_endpoints [SetEndpoints [E1, E2]])"
    by (simp add: c)
  from initial_baseline [OF h1 h2] h3 h4 h5
  obtain r batch r' where "NewResolver [SetEndpoints [E1, E2]] rnd_ok = Return (Inr r)"
    "Next r = Return ((batch, None), r')"
    "length batch = length (configured_endpoints [SetEndpoints [E1, E2]])"
    "mset batch = mset (map add_event (configured_endpoints [SetEndpoints [E1, E2]]))"
    "count_list (map UAddr batch) (Addr E1) = 1"
    by blast
  then have "\<exists>r batch r'. NewResolver [SetEndpoints [E1, E2]] rnd_ok = Return (Inr r) \<and>
      Next r = Return ((batch, None), r') \<and> length batch = 2 \<and>
      mset batch = {#\<lparr>Op = Add, UAddr = ''10.0.0.1:9000''\<rparr>,
                     \<lparr>Op = Add, UAddr = ''10.0.0.2:9000''\<rparr>#} \<and>
      count_list (map UAddr batch) ''10.0.0.1:9000'' = 1"
    unfolding c by (auto simp: add_event_def E1_def E2_def)
  moreover have "healthy (outcome rnd_ok 0)" "healthy (outcome rnd_ok 1)"
    by (simp_all add: rnd_ok_def healthy_def)
  ultimately show ?thesis
    using h1 h2 h4 by blast
qed

section \<open>The two channels agree\<close>

text \<open>
  \<^verbatim>\<open>quitc\<close> and \<^verbatim>\<open>updatesc\<close> are closed together, in \<^verbatim>\<open>Close\<close> only: they agree on the
  resolver \<^verbatim>\<open>NewResolver\<close> returns, and every operation keeps them so.
\<close>

lemma NewResolver_channels:
  "NewResolver opts rnd = Return (Inr r) \<Longrightarrow> \<not> quitc r \<and> \<not> closed (updatesc r)"
proof -
  assume a: "NewResolver opts rnd = Return (Inr r)"
  obtain r0 where "apply_options opts \<lparr>endp = [], logger = nopLogger,
      checkTimeout = defaultCheckTimeout, updateInterval = defaultUpdateInterval,
      quitc = False, updatesc = make_chan 0\<rparr> = Inr r0"
    using apply_options_endp by blast
  from NewResolver_cases [OF this, of rnd] a show ?thesis
    by (auto simp: Let_def split: if_splits)
qed

lemma Next_channels:
  "Next r = Return (res, r') \<Longrightarrow>
   quitc r' = quitc r \<and> closed (updatesc r') = closed (updatesc r)"
  by (auto simp: Next_cases split: list.splits if_splits)

lemma Close_channels:
  "quitc r = closed (updatesc r) \<Longrightarrow> Close r = Return r' \<Longrightarrow>
   quitc r' \<and> closed (updatesc r')"
  by (auto simp: Close_def close_chan_def split: if_splits)

lemma updater_iter_channels:
  "quitc (fst (updater_iter tick pick_quit r)) = quitc r \<and>
   closed (updatesc (fst (updater_iter tick pick_quit r))) = closed (updatesc r)"
  by (cases tick)
     (auto simp: updater_iter_def update_eq send_def split: outcome.splits)

section \<open>The updater loop in general\<close>

lemma updater_iter_open:
  assumes "\<not> closed (updatesc r)" and "length (buf (updatesc r)) < cap (updatesc r)"
  shows "updater_iter (Some rnd) pick_quit r =
           (if quitc r \<and> pick_quit then (r, Continue)
            else (r\<lparr>endp := probed rnd (endp r),
                    updatesc := (updatesc r)\<lparr>buf := buf (updatesc r) @
                      [diff (snapshot (endp r)) (probed rnd (endp r)) (order rnd) []]\<rparr>\<rparr>,
                  Continue))"
  using assms by (simp add: updater_iter_def update_eq send_def)

lemma updater_iter_closed:
  assumes "quitc r" and "closed (updatesc r)"
  shows "updater_iter None pick_quit r = (r, Continue)"
    and "updater_iter (Some rnd) True r = (r, Continue)"
    and "updater_iter (Some rnd) False r = (r\<lparr>endp := probed rnd (endp r)\<rparr>, Panicked)"
  using assms by (simp_all add: updater_iter_def update_eq send_def)

section \<open>The older resolver\<close>

text \<open>
  When every probe is answered, \<^verbatim>\<open>HealthzResolver.update\<close> does what \<^verbatim>\<open>Resolver.update\<close>
  does. When a probe fails, it returns the error and no batch, and the endpoints whose
  probes were answered keep the codes written to them; \<^verbatim>\<open>NewHealthzResolver\<close> then
  returns the error. \<^verbatim>\<open>NewHealthzResolver\<close> has no check for an empty list: with no
  endpoint it blocks in the send on the channel of capacity 0.
\<close>

lemma hz_check_Response: "hz_check (Response c) ep = check (Response c) ep"
  by (simp add: hz_check_def check_def)

lemma hz_update_answered:
  assumes "\<forall>i<length (hz_endp r). \<exists>c. outcome rnd i = Response c"
  shows "hz_update rnd r =
           (r\<lparr>hz_endp := probed rnd (hz_endp r)\<rparr>,
            Inr (diff (snapshot (hz_endp r)) (probed rnd (hz_endp r)) (order rnd) []))"
proof -
  have eq: "map (\<lambda>i. hz_check (outcome rnd i) (hz_endp r ! i)) [0..<length (hz_endp r)]
        = map (\<lambda>i. check (outcome rnd i) (hz_endp r ! i)) [0..<length (hz_endp r)]"
  proof (rule map_cong [OF refl])
    fix i assume "i \<in> set [0..<length (hz_endp r)]"
    with assms obtain c where "outcome rnd i = Response c" by auto
    then show "hz_check (outcome rnd i) (hz_endp r ! i) = check (outcome rnd i) (hz_endp r ! i)"
      by (simp add: hz_check_Response)
  qed
  have "Wait (map snd (map (\<lambda>i. check (outcome rnd i) (hz_endp r ! i))
                         [0..<length (hz_endp r)])) = None"
    by (rule Wait_None) (simp add: check_snd)
  then show ?thesis
    unfolding hz_update_def eq by (simp add: probed_def Let_def comp_def)
qed

lemma Wait_Cons: "Wait (x # xs) = (case x of None \<Rightarrow> Wait xs | Some e \<Rightarrow> Some e)"
  by (simp add: Wait_def split: option.splits)

lemma Wait_Some: "Some e \<in> set errs \<Longrightarrow> \<exists>e'. Wait errs = Some e'"
  by (induction errs) (auto simp: Wait_Cons split: option.splits)

lemma hz_update_failed:
  assumes "i < length (hz_endp r)" and "outcome rnd i = Failed e"
  shows "\<exists>err. snd (hz_update rnd r) = Inl err"
proof -
  define errs where "errs = map snd (map (\<lambda>i. hz_check (outcome rnd i) (hz_endp r ! i))
                          [0..<length (hz_endp r)])"
  have "errs ! i = Some (ErrGet e)"
    using assms by (simp add: errs_def hz_check_def)
  moreover have "i < length errs"
    using assms(1) by (simp add: errs_def)
  ultimately have "Some (ErrGet e) \<in> set errs"
    using nth_mem by fastforce
  then obtain e' where "Wait errs = Some e'"
    using Wait_Some by blast
  then show ?thesis
    by (simp add: hz_update_def Let_def errs_def)
qed

lemma hz_update_HZ2_refused:
  "hz_update rnd_refused HZ2 =
     (HZ2\<lparr>hz_endp := [E1\<lparr>status := 501\<rparr>, E2\<lparr>status := 200\<rparr>]\<rparr>,
      Inl (ErrGet TransportError))"
  by (simp add: hz_update_def Let_def HZ2_def rnd_refused_def hz_check_def Wait_def
      snapshot_def E1_def E2_def)

lemma NewHealthzResolver_refused:
  "NewHealthzResolver [E1, E2] rnd_refused = Return (Inl (ErrGet TransportError))"
  by (simp add: NewHealthzResolver_def hz_update_def Let_def rnd_refused_def hz_check_def
      Wait_def snapshot_def E1_def E2_def)

lemma NewHealthzResolver_empty: "NewHealthzResolver [] rnd = Block"
  by (simp add: NewHealthzResolver_def hz_update_def Let_def Wait_def send_def make_chan_def)

lemma NewHealthzResolver_two_ok:
  "NewHealthzResolver [E1, E2] rnd_ok =
     Return (Inr (HZ2\<lparr>hz_endp := [E1\<lparr>status := 200\<rparr>, E2\<lparr>status := 200\<rparr>],
                       hz_updatesc := \<lparr>buf = [[\<lparr>Op = Add, UAddr = ''10.0.0.2:9000''\<rparr>,
                                                \<lparr>Op = Add, UAddr = ''10.0.0.1:9000''\<rparr>]],
                                        cap = 2, closed = False\<rparr>\<rparr>))"
  by (simp add: NewHealthzResolver_def hz_update_def Let_def rnd_ok_def hz_check_def
      Wait_def snapshot_def send_def make_chan_def HZ2_def E1_def E2_def
      StatusNotImplemented_def)

end
